theory Spec2Isabelle
  imports Complex_Main "HOL-Library.Word" "HOL-Library.Sublist"
begin

section \<open>Python values: strings, exceptions, process state\<close>

text \<open>
  A Python \<open>str\<close> is a sequence of Unicode code points; \<open>chr\<close> reaches far beyond the
  256 values of \<^typ>\<open>char\<close>, so a string is modelled as the list of its code points.
  \<open>lit\<close> embeds an ASCII literal.
\<close>

type_synonym codepoint = int
type_synonym pystr = "codepoint list"

definition ord :: "char \<Rightarrow> codepoint" where
  "ord c = of_char c"

definition lit :: "string \<Rightarrow> pystr" where
  "lit s = map ord s"

text \<open>The exceptions the script can meet; none of them is caught anywhere in the file.\<close>

datatype pyerror = ValueError | OverflowError | LibraryError

text \<open>
  How a call ends early: \<open>sys.exit(n)\<close>, or an exception nobody catches. The interpreter
  turns an uncaught exception into exit status 1.
\<close>

datatype abort = SysExit int | Uncaught pyerror

fun exit_status :: "abort + unit \<Rightarrow> int" where
  "exit_status (Inl (SysExit n)) = n"
| "exit_status (Inl (Uncaught e)) = 1"
| "exit_status (Inr u) = 0"

text \<open>
  What the process writes: a line printed by the script on standard output, the help text
  of the argument parser (standard output), or the parser's usage error (standard error).
\<close>

datatype usage_error = MissingImagePath | UnrecognizedArguments "pystr list"

datatype written = Out pystr | HelpMessage | UsageError usage_error

text \<open>
  The effects on the outside world, in the order they happen: the assignment to
  \<open>os.environ\<close>, the import of the inference library (with the value of the logging
  variable it finds at that moment), and the calls into the libraries.
\<close>

datatype event =
    SetEnv pystr pystr
  | ImportTensorflow "pystr option"
  | LoadModel pystr
  | Imread pystr
  | Predict int

record pstate =
  console :: "written list"
  environ :: "pystr \<Rightarrow> pystr option"
  trace :: "event list"

definition print :: "pystr \<Rightarrow> pstate \<Rightarrow> pstate" where
  "print line s = s\<lparr>console := console s @ [Out line]\<rparr>"

definition emit :: "event \<Rightarrow> pstate \<Rightarrow> pstate" where
  "emit e s = s\<lparr>trace := trace s @ [e]\<rparr>"

section \<open>The script's constants\<close>

definition IMG_WIDTH :: nat where
  "IMG_WIDTH = 250"

definition IMG_HEIGHT :: nat where
  "IMG_HEIGHT = 50"

definition MODEL_PATH :: pystr where
  "MODEL_PATH = lit ''captcha_model.keras''"

definition TF_CPP_MIN_LOG_LEVEL :: pystr where
  "TF_CPP_MIN_LOG_LEVEL = lit ''TF_CPP_MIN_LOG_LEVEL''"

section \<open>index_to_char\<close>

text \<open>
  \<open>str(index)\<close> of a Python integer: its decimal digits, with a minus sign when negative.
\<close>

function dec_digits :: "nat \<Rightarrow> pystr" where
  "dec_digits n =
     (if n < 10 then [ord CHR ''0'' + int n]
      else dec_digits (n div 10) @ [ord CHR ''0'' + int (n mod 10)])"
  by pat_completeness auto
termination
  by (relation "measure (\<lambda>n. n)") auto

declare dec_digits.simps [simp del]

definition py_str :: "int \<Rightarrow> pystr" where
  "py_str i = (if i < 0 then ord CHR ''-'' # dec_digits (nat (- i)) else dec_digits (nat i))"

text \<open>
  The builtin \<open>chr\<close>: a one-character string for an argument in \<open>range(0x110000)\<close>,
  \<open>ValueError\<close> for any other argument that fits a C \<open>int\<close>, \<open>OverflowError\<close> beyond.
\<close>

definition py_chr :: "int \<Rightarrow> pyerror + pystr" where
  "py_chr i =
     (if 0 \<le> i \<and> i < 0x110000 then Inr [i]
      else if - (2 ^ 31) \<le> i \<and> i < 2 ^ 31 then Inl ValueError
      else Inl OverflowError)"

definition index_to_char :: "int \<Rightarrow> pyerror + pystr" where
  "index_to_char index =
     (if index < 10 then Inr (py_str index)
      else py_chr (index - 10 + ord CHR ''a''))"

text \<open>The alphabet the docstring of \<open>index_to_char\<close> names: \<open>0-9\<close>, \<open>a-z\<close>.\<close>

definition alphabet :: "codepoint set" where
  "alphabet = set (lit ''0123456789abcdefghijklmnopqrstuvwxyz'')"

section \<open>Decoding the model's output\<close>

text \<open>
  \<open>np.argmax\<close> of one slot of the model's output, read as the flat sequence of its
  entries: a scan that keeps the first index holding the greatest value so far, and a
  \<open>ValueError\<close> on an empty sequence. The entries are finite numbers (a probability is
  never NaN), so any linear order stands for them.
\<close>

fun argmax_scan :: "'a::linorder list \<Rightarrow> nat \<Rightarrow> 'a \<Rightarrow> nat \<Rightarrow> nat" where
  "argmax_scan [] i best best_i = best_i"
| "argmax_scan (x # xs) i best best_i =
     (if best < x then argmax_scan xs (Suc i) x i else argmax_scan xs (Suc i) best best_i)"

definition np_argmax :: "'a::linorder list \<Rightarrow> pyerror + int" where
  "np_argmax pred =
     (case pred of [] \<Rightarrow> Inl ValueError | x # xs \<Rightarrow> Inr (int (argmax_scan xs 1 x 0)))"

text \<open>
  The list comprehension of \<open>predict_captcha\<close>:
  \<open>[index_to_char(np.argmax(pred)) for pred in predictions]\<close>. The first exception ends it.
\<close>

fun predicted_chars :: "'a::linorder list list \<Rightarrow> pyerror + pystr list" where
  "predicted_chars [] = Inr []"
| "predicted_chars (pred # rest) =
     (case np_argmax pred of
        Inl e \<Rightarrow> Inl e
      | Inr index \<Rightarrow>
          (case index_to_char index of
             Inl e \<Rightarrow> Inl e
           | Inr c \<Rightarrow>
               (case predicted_chars rest of
                  Inl e \<Rightarrow> Inl e
                | Inr cs \<Rightarrow> Inr (c # cs))))"

section \<open>Loading and normalising the image\<close>

text \<open>
  \<open>cv2.imread\<close> with its default flag gives an array of shape (height, width, 3) of
  unsigned bytes, or \<open>None\<close> when the file is missing or cannot be decoded. An image is
  its rows; a pixel is its three channel bytes.
\<close>

type_synonym pixel = "8 word \<times> 8 word \<times> 8 word"
type_synonym image = "pixel list list"
type_synonym tensor = "(rat \<times> rat \<times> rat) list list list"

text \<open>
  \<open>img.astype(np.float32) / 255.0\<close> is a division in IEEE-754 single precision: the
  exact quotient rounded to 24 significant bits, ties to even. A byte converts to single
  precision exactly, and \<open>255.0\<close> is exact too. The single-precision values are rational
  numbers; \<open>f32_round\<close> is the rounding in the normal range (the quotients of a byte by
  255 are 0 or lie between \<open>1 / 255\<close> and 1, far from underflow and overflow).
\<close>

fun bit_length :: "nat \<Rightarrow> nat" where
  "bit_length n = (if n = 0 then 0 else Suc (bit_length (n div 2)))"

declare bit_length.simps [simp del]

definition binary_exponent :: "rat \<Rightarrow> int" where
  "binary_exponent x =
     (if 1 \<le> x then int (bit_length (nat \<lfloor>x\<rfloor>)) - 1
      else - int (bit_length (nat (\<lceil>1 / x\<rceil> - 1))))"

definition round_half_even :: "rat \<Rightarrow> int" where
  "round_half_even q =
     (let f = \<lfloor>q\<rfloor>; r = q - of_int f
      in if r < 1 / 2 then f else if 1 / 2 < r then f + 1 else if even f then f else f + 1)"

definition f32_round :: "rat \<Rightarrow> rat" where
  "f32_round x =
     (if x = 0 then 0
      else let ulp = 2 powi (binary_exponent \<bar>x\<bar> - 23)
           in of_int (round_half_even (x / ulp)) * ulp)"

definition f32_div :: "rat \<Rightarrow> rat \<Rightarrow> rat" where
  "f32_div a b = f32_round (a / b)"

definition normalize_value :: "8 word \<Rightarrow> rat" where
  "normalize_value v = f32_div (of_nat (unat v)) 255"

definition normalize_pixel :: "pixel \<Rightarrow> rat \<times> rat \<times> rat" where
  "normalize_pixel p = (case p of (b, g, r) \<Rightarrow> (normalize_value b, normalize_value g, normalize_value r))"

text \<open>
  The libraries the script calls, as parameters: \<open>cv2.imread\<close>, \<open>cv2.resize\<close> (image and
  the pair (width, height) asked for), and \<open>tf.keras.models.load_model\<close>, which gives the
  model or raises. A model is its \<open>predict\<close>: from the input batch and the verbosity to one
  sequence of numbers per output slot, or an exception of the library.
\<close>

type_synonym 'a model = "tensor \<Rightarrow> int \<Rightarrow> pyerror + 'a list list"

record 'a libs =
  cv2_imread :: "pystr \<Rightarrow> image option"
  cv2_resize :: "image \<Rightarrow> nat \<times> nat \<Rightarrow> image"
  load_model :: "pystr \<Rightarrow> pyerror + 'a model"

text \<open>What \<open>cv2.resize\<close> promises about the shape of its result.\<close>

definition has_size :: "image \<Rightarrow> nat \<Rightarrow> nat \<Rightarrow> bool" where
  "has_size img w h = (length img = h \<and> list_all (\<lambda>row. length row = w) img)"

definition resize_contract :: "(image \<Rightarrow> nat \<times> nat \<Rightarrow> image) \<Rightarrow> bool" where
  "resize_contract rs = (\<forall>img w h. has_size (rs img (w, h)) w h)"

definition preprocess_image :: "'a libs \<Rightarrow> pystr \<Rightarrow> pstate \<Rightarrow> (abort + tensor) \<times> pstate" where
  "preprocess_image L img_path s =
     (let s1 = emit (Imread img_path) s
      in case cv2_imread L img_path of
           None \<Rightarrow> (Inl (SysExit 1), print (lit ''Error: Image not found at '' @ img_path) s1)
         | Some img \<Rightarrow>
             (let img1 = cv2_resize L img (IMG_WIDTH, IMG_HEIGHT);
                  img2 = map (map normalize_pixel) img1
              in (Inr [img2], s1)))"

section \<open>predict_captcha\<close>

definition predict_captcha ::
  "'a::linorder libs \<Rightarrow> 'a model \<Rightarrow> pystr \<Rightarrow> int \<Rightarrow> pstate \<Rightarrow> (abort + pystr) \<times> pstate" where
  "predict_captcha L model img_path verbose s =
     (case preprocess_image L img_path s of
        (Inl a, s1) \<Rightarrow> (Inl a, s1)
      | (Inr img_input, s1) \<Rightarrow>
          (let s2 = emit (Predict verbose) s1
           in case model img_input verbose of
                Inl e \<Rightarrow> (Inl (Uncaught e), s2)
              | Inr predictions \<Rightarrow>
                  (case predicted_chars predictions of
                     Inl e \<Rightarrow> (Inl (Uncaught e), s2)
                   | Inr cs \<Rightarrow> (Inr (concat cs), s2))))"

section \<open>The command line\<close>

text \<open>
  The parser the script declares has the flag \<open>--verbose\<close> (\<open>store_true\<close>), the help
  flags \<open>-h\<close> and \<open>--help\<close> that \<open>argparse\<close> adds, and one positional \<open>image_path\<close>.
  \<open>parse_args\<close> is the library's behaviour on the command lines whose arguments are one
  of these flags, spelled in full, or do not start with a dash (the empty string is such a
  positional). Any other argument that starts with a dash (an abbreviation, an unknown
  option, \<open>--\<close>, a negative number) is outside this fragment: \<open>None\<close>.
  The help flag prints the help and exits with status 0 as soon as it is met; a missing
  or a surplus positional is reported once every argument is read, with status 2.
\<close>

record args =
  verbose :: bool
  image_path :: pystr

datatype parsed = Parsed args | ParserExit int written

datatype arg_class = OptVerbose | OptHelp | Positional | OtherDash

definition classify_arg :: "pystr \<Rightarrow> arg_class" where
  "classify_arg a =
     (if a = lit ''--verbose'' then OptVerbose
      else if a = lit ''-h'' \<or> a = lit ''--help'' then OptHelp
      else if a = [] \<or> hd a \<noteq> ord CHR ''-'' then Positional
      else OtherDash)"

fun scan_args :: "pystr list \<Rightarrow> bool \<Rightarrow> pystr list \<Rightarrow> parsed option" where
  "scan_args [] v ps =
     (case ps of
        [] \<Rightarrow> Some (ParserExit 2 (UsageError MissingImagePath))
      | [p] \<Rightarrow> Some (Parsed \<lparr>verbose = v, image_path = p\<rparr>)
      | p # extra \<Rightarrow> Some (ParserExit 2 (UsageError (UnrecognizedArguments extra))))"
| "scan_args (a # rest) v ps =
     (case classify_arg a of
        OptVerbose \<Rightarrow> scan_args rest True ps
      | OptHelp \<Rightarrow> Some (ParserExit 0 HelpMessage)
      | Positional \<Rightarrow> scan_args rest v (ps @ [a])
      | OtherDash \<Rightarrow> None)"

definition parse_args :: "pystr list \<Rightarrow> parsed option" where
  "parse_args argv = scan_args (tl argv) False []"

section \<open>The main block\<close>

text \<open>Lines 49 to 61 of the script, once \<open>parse_args\<close> has returned \<open>args\<close>.\<close>

definition run_script :: "'a::linorder libs \<Rightarrow> pystr \<Rightarrow> args \<Rightarrow> pstate \<Rightarrow> (abort + unit) \<times> pstate" where
  "run_script L argv0 a s =
     (let s1 = (if \<not> verbose a
                then emit (SetEnv TF_CPP_MIN_LOG_LEVEL (lit ''3''))
                       (s\<lparr>environ := (environ s)(TF_CPP_MIN_LOG_LEVEL \<mapsto> lit ''3'')\<rparr>)
                else s);
          s2 = emit (ImportTensorflow (environ s1 TF_CPP_MIN_LOG_LEVEL)) s1
      in if image_path a = []
         then (Inl (SysExit 1),
               print (lit ''Usage: '' @ argv0 @ lit '' [--verbose] <image_path>'') s2)
         else
           (let s3 = emit (LoadModel MODEL_PATH) s2
            in case load_model L MODEL_PATH of
                 Inl e \<Rightarrow> (Inl (Uncaught e), s3)
               | Inr model \<Rightarrow>
                   (case predict_captcha L model (image_path a) (if verbose a then 1 else 0) s3 of
                      (Inl ab, s4) \<Rightarrow> (Inl ab, s4)
                    | (Inr predicted_text, s4) \<Rightarrow> (Inr (), print predicted_text s4))))"

definition main :: "'a::linorder libs \<Rightarrow> pystr list \<Rightarrow> pstate \<Rightarrow> ((abort + unit) \<times> pstate) option" where
  "main L argv s =
     (case parse_args argv of
        None \<Rightarrow> None
      | Some (ParserExit n w) \<Rightarrow> Some (Inl (SysExit n), s\<lparr>console := console s @ [w]\<rparr>)
      | Some (Parsed a) \<Rightarrow> Some (run_script L (hd argv) a s))"

section \<open>A sample environment\<close>

text \<open>
  Concrete libraries to run the script on: a nearest-neighbour \<open>resize\<close>, a file system
  with one readable image, and a model file that loads to a model of four output slots
  with 36 classes each. The second slot has a tie, the third is uniform.
\<close>

definition nearest_resize :: "image \<Rightarrow> nat \<times> nat \<Rightarrow> image" where
  "nearest_resize img dsize =
     (case dsize of (w, h) \<Rightarrow>
        map (\<lambda>y. map (\<lambda>x. img ! (y * length img div h) ! (x * length (hd img) div w)) [0..<w])
          [0..<h])"

definition sample_image :: image where
  "sample_image = [[(0, 128, 255), (255, 255, 255), (7, 7, 7)],
                   [(10, 20, 30), (1, 2, 3), (254, 0, 1)]]"

definition sample_predictions :: "rat list list" where
  "sample_predictions =
     [[0, 0, 0, 0, 0, 0, 0, 9 / 10, 0, 0, 0, 0, 0, 0, 0, 0, 0, 0,
       0, 0, 0, 0, 0, 0, 0, 0, 0, 0, 0, 1 / 10, 0, 0, 0, 0, 0, 0],
      [0, 0, 0, 0, 0, 0, 0, 0, 0, 0, 2 / 5, 0, 0, 0, 0, 0, 0, 0,
       0, 0, 2 / 5, 0, 0, 0, 0, 0, 0, 0, 0, 0, 0, 0, 0, 1 / 5, 0, 0],
      [1 / 36, 1 / 36, 1 / 36, 1 / 36, 1 / 36, 1 / 36, 1 / 36, 1 / 36, 1 / 36,
       1 / 36, 1 / 36, 1 / 36, 1 / 36, 1 / 36, 1 / 36, 1 / 36, 1 / 36, 1 / 36,
       1 / 36, 1 / 36, 1 / 36, 1 / 36, 1 / 36, 1 / 36, 1 / 36, 1 / 36, 1 / 36,
       1 / 36, 1 / 36, 1 / 36, 1 / 36, 1 / 36, 1 / 36, 1 / 36, 1 / 36, 1 / 36],
      [0, 0, 0, 0, 0, 0, 0, 0, 0, 0, 0, 0, 0, 0, 0, 0, 0, 0,
       0, 0, 0, 0, 0, 0, 0, 0, 0, 0, 0, 0, 0, 0, 0, 1 / 4, 0, 3 / 4]]"

definition sample_model :: "rat model" where
  "sample_model img_input v = Inr sample_predictions"

definition sample_libs :: "rat libs" where
  "sample_libs =
     \<lparr>cv2_imread = (\<lambda>p. if p = lit ''captcha.png'' then Some sample_image else None),
      cv2_resize = nearest_resize,
      load_model = (\<lambda>p. if p = MODEL_PATH then Inr sample_model else Inl LibraryError)\<rparr>"

definition state0 :: pstate where
  "state0 = \<lparr>console = [], environ = (\<lambda>k. None), trace = []\<rparr>"

section \<open>Properties of index_to_char\<close>

lemma dec_digits_small: "n < 10 \<Longrightarrow> dec_digits n = [ord CHR ''0'' + int n]"
  by (subst dec_digits.simps) simp

lemma index_to_char_digit:
  "0 \<le> i \<Longrightarrow> i < 10 \<Longrightarrow> index_to_char i = Inr [ord CHR ''0'' + i]"
  by (simp add: index_to_char_def py_str_def dec_digits_small)

lemma index_to_char_chr:
  "10 \<le> i \<Longrightarrow> i \<le> 1114024 \<Longrightarrow> index_to_char i = Inr [i - 10 + ord CHR ''a'']"
  by (simp add: index_to_char_def py_chr_def ord_def)

lemma index_to_char_letter:
  "10 \<le> i \<Longrightarrow> i \<le> 35 \<Longrightarrow> index_to_char i = Inr [ord CHR ''a'' + (i - 10)]"
  by (simp add: index_to_char_chr add.commute)

lemma alphabet_iff: "c \<in> alphabet \<longleftrightarrow> (48 \<le> c \<and> c \<le> 57) \<or> (97 \<le> c \<and> c \<le> 122)"
  unfolding alphabet_def lit_def ord_def
  apply simp
  apply arith
  done

lemma index_to_char_in_alphabet:
  assumes "0 \<le> i" "i \<le> 35"
  shows "\<exists>c. index_to_char i = Inr [c] \<and> c \<in> alphabet"
proof (cases "i < 10")
  case True
  with assms show ?thesis
    by (simp add: index_to_char_digit alphabet_iff ord_def)
next
  case False
  with assms show ?thesis
    by (simp add: index_to_char_letter alphabet_iff ord_def)
qed

lemma index_to_char_inj: "inj_on index_to_char {0..35}"
proof (rule inj_onI)
  fix i j :: int
  assume i: "i \<in> {0..35}" and j: "j \<in> {0..35}" and eq: "index_to_char i = index_to_char j"
  show "i = j"
  proof (cases "i < 10"; cases "j < 10")
    assume "i < 10" "j < 10"
    with i j eq show ?thesis by (simp add: index_to_char_digit)
  next
    assume "i < 10" "\<not> j < 10"
    with i j eq show ?thesis by (simp add: index_to_char_digit index_to_char_letter ord_def)
  next
    assume "\<not> i < 10" "j < 10"
    with i j eq show ?thesis by (simp add: index_to_char_digit index_to_char_letter ord_def)
  next
    assume "\<not> i < 10" "\<not> j < 10"
    with i j eq show ?thesis by (simp add: index_to_char_letter)
  qed
qed

text \<open>
  Claim C2. On the indices 0 to 35 \<open>index_to_char\<close> raises nothing and returns one
  character of the alphabet, different indices give different characters, 0 gives \<open>0\<close>,
  9 gives \<open>9\<close>, 10 gives \<open>a\<close> and 35 gives \<open>z\<close>; an index from 0 to 9 gives its digit and
  an index from 10 to 35 the letter at offset \<open>index - 10\<close> from \<open>a\<close>.
\<close>

theorem index_to_char_total_injective:
  "(\<forall>i\<in>{0..35}. \<exists>c. index_to_char i = Inr [c] \<and> c \<in> alphabet)
   \<and> inj_on index_to_char {0..35}
   \<and> index_to_char 0 = Inr (lit ''0'')
   \<and> index_to_char 9 = Inr (lit ''9'')
   \<and> index_to_char 10 = Inr (lit ''a'')
   \<and> index_to_char 35 = Inr (lit ''z'')
   \<and> (\<forall>i\<in>{0..9}. index_to_char i = Inr [ord CHR ''0'' + i])
   \<and> (\<forall>i\<in>{10..35}. index_to_char i = Inr [ord CHR ''a'' + (i - 10)])"
proof -
  have total: "\<forall>i\<in>{0..35}. \<exists>c. index_to_char i = Inr [c] \<and> c \<in> alphabet"
    by (simp add: index_to_char_in_alphabet)
  have digits: "\<forall>i\<in>{0..9}. index_to_char i = Inr [ord CHR ''0'' + i]"
    by (simp add: index_to_char_digit)
  have letters: "\<forall>i\<in>{10..35}. index_to_char i = Inr [ord CHR ''a'' + (i - 10)]"
    by (simp add: index_to_char_letter)
  have c0: "index_to_char 0 = Inr (lit ''0'')"
    by (simp add: index_to_char_digit lit_def)
  have c9: "index_to_char 9 = Inr (lit ''9'')"
    by (simp add: index_to_char_digit lit_def ord_def)
  have c10: "index_to_char 10 = Inr (lit ''a'')"
    by (simp add: index_to_char_letter lit_def)
  have c35: "index_to_char 35 = Inr (lit ''z'')"
    by (simp add: index_to_char_letter lit_def ord_def)
  from total index_to_char_inj c0 c9 c10 c35 digits letters show ?thesis
    by blast
qed

theorem index_to_char_total_injective_witness:
  "(7::int) \<in> {0..35} \<and> (20::int) \<in> {10..35}
   \<and> index_to_char 7 = Inr (lit ''7'') \<and> index_to_char 20 = Inr (lit ''k'')
   \<and> index_to_char 7 \<noteq> index_to_char 20"
proof -
  have a: "(7::int) \<in> {0..9}" and b: "(20::int) \<in> {10..35}" by simp_all
  from index_to_char_total_injective a b
  have "index_to_char 7 = Inr [ord CHR ''0'' + 7]" "index_to_char 20 = Inr [ord CHR ''a'' + (20 - 10)]"
    by blast+
  then show ?thesis by (simp add: lit_def ord_def)
qed

text \<open>
  Claim C10 says that \<open>index_to_char\<close> returns a character for every index from 36 on.
  It does not: \<open>chr\<close> accepts code points below \<open>0x110000\<close> only, so at index 1114025
  (code point 1114112) the call raises \<open>ValueError\<close>.
\<close>

theorem index_to_char_out_of_range_counterexample:
  "(0::int) \<le> 1114025 \<and> index_to_char 1114025 = Inl ValueError"
  by (simp add: index_to_char_def py_chr_def ord_def)

lemma index_to_char_beyond:
  assumes "1114025 \<le> i"
  shows "index_to_char i = Inl (if i < 2147483561 then ValueError else OverflowError)"
  using assms by (simp add: index_to_char_def py_chr_def ord_def)

text \<open>
  Claim C10, amended. \<open>index_to_char\<close> checks no range of its own. For every index from
  36 to 1114024 it returns the one character \<open>chr(index - 10 + ord('a'))\<close>, which is outside
  the alphabet; from index 1114025 on \<open>chr\<close> raises (\<open>ValueError\<close>, and \<open>OverflowError\<close>
  once the code point no longer fits a C \<open>int\<close>); among the non-negative indices exactly
  0 to 35 give a character of the alphabet.
\<close>

theorem index_to_char_no_range_check:
  "(\<forall>i. 36 \<le> i \<and> i \<le> 1114024 \<longrightarrow>
        index_to_char i = Inr [i - 10 + ord CHR ''a''] \<and> i - 10 + ord CHR ''a'' \<notin> alphabet)
   \<and> (\<forall>i. 1114025 \<le> i \<longrightarrow>
        index_to_char i = Inl (if i < 2147483561 then ValueError else OverflowError))
   \<and> (\<forall>i. 0 \<le> i \<longrightarrow> ((\<exists>c\<in>alphabet. index_to_char i = Inr [c]) \<longleftrightarrow> i \<le> 35))"
proof (intro conjI allI impI)
  fix i :: int assume "36 \<le> i \<and> i \<le> 1114024"
  then show "index_to_char i = Inr [i - 10 + ord CHR ''a'']"
    by (simp add: index_to_char_chr)
next
  fix i :: int assume "36 \<le> i \<and> i \<le> 1114024"
  then show "i - 10 + ord CHR ''a'' \<notin> alphabet"
    by (simp add: alphabet_iff ord_def)
next
  fix i :: int assume "1114025 \<le> i"
  then show "index_to_char i = Inl (if i < 2147483561 then ValueError else OverflowError)"
    by (rule index_to_char_beyond)
next
  fix i :: int assume nonneg: "0 \<le> i"
  show "(\<exists>c\<in>alphabet. index_to_char i = Inr [c]) \<longleftrightarrow> i \<le> 35"
  proof
    assume ex: "\<exists>c\<in>alphabet. index_to_char i = Inr [c]"
    show "i \<le> 35"
    proof (rule ccontr)
      assume "\<not> i \<le> 35"
      then have big: "36 \<le> i" by simp
      show False
      proof (cases "i \<le> 1114024")
        case True
        with big ex show False
          by (auto simp: index_to_char_chr alphabet_iff ord_def)
      next
        case False
        then have "1114025 \<le> i" by simp
        from index_to_char_beyond [OF this] ex show False by auto
      qed
    qed
  next
    assume "i \<le> 35"
    with nonneg index_to_char_in_alphabet [of i] show "\<exists>c\<in>alphabet. index_to_char i = Inr [c]"
      by blast
  qed
qed

theorem index_to_char_no_range_check_witness:
  "(36::int) \<le> 36 \<and> (36::int) \<le> 1114024 \<and> index_to_char 36 = Inr (lit ''{'')
   \<and> ord CHR ''{'' \<notin> alphabet
   \<and> (1114025::int) \<le> 4294967296 \<and> index_to_char 4294967296 = Inl OverflowError
   \<and> (0::int) \<le> 35 \<and> (\<exists>c. c \<in> alphabet \<and> index_to_char 35 = Inr [c])"
proof -
  have h1: "(36::int) \<le> 36 \<and> (36::int) \<le> 1114024" by simp
  have h2: "(1114025::int) \<le> 4294967296" by simp
  have h3: "(0::int) \<le> 35" by simp
  from index_to_char_no_range_check h1
  have a: "index_to_char 36 = Inr [36 - 10 + ord CHR ''a''] \<and> 36 - 10 + ord CHR ''a'' \<notin> alphabet"
    by blast
  from index_to_char_no_range_check h2
  have b: "index_to_char 4294967296 = Inl (if (4294967296::int) < 2147483561 then ValueError else OverflowError)"
    by blast
  from index_to_char_no_range_check h3
  have c: "\<exists>c\<in>alphabet. index_to_char 35 = Inr [c]"
    by blast
  from a b c show ?thesis
    by (auto simp: lit_def ord_def)
qed

section \<open>Properties of the decoder\<close>

lemma argmax_scan_spec:
  assumes "length pre = i" "best_i < i" "(pre @ xs) ! best_i = best"
    and "\<forall>j<i. (pre @ xs) ! j \<le> best" "\<forall>j<best_i. (pre @ xs) ! j < best"
  shows "argmax_scan xs i best best_i < length (pre @ xs)
         \<and> (\<forall>j<length (pre @ xs). (pre @ xs) ! j \<le> (pre @ xs) ! argmax_scan xs i best best_i)
         \<and> (\<forall>j<argmax_scan xs i best best_i. (pre @ xs) ! j < (pre @ xs) ! argmax_scan xs i best best_i)"
  using assms
proof (induction xs arbitrary: pre i best best_i)
  case Nil
  then show ?case by auto
next
  case (Cons x xs)
  have split: "pre @ x # xs = (pre @ [x]) @ xs" by simp
  have at_i: "(pre @ x # xs) ! i = x" using Cons.prems(1) by (simp add: nth_append)
  show ?case
  proof (cases "best < x")
    case True
    have le: "\<forall>j<Suc i. ((pre @ [x]) @ xs) ! j \<le> x"
    proof (intro allI impI)
      fix j assume "j < Suc i"
      then consider "j < i" | "j = i" by (auto simp: less_Suc_eq)
      then show "((pre @ [x]) @ xs) ! j \<le> x"
      proof cases
        case 1
        with Cons.prems(4) True show ?thesis by fastforce
      next
        case 2
        with at_i show ?thesis by simp
      qed
    qed
    have lt: "\<forall>j<i. ((pre @ [x]) @ xs) ! j < x"
      using Cons.prems(4) True by fastforce
    have "argmax_scan xs (Suc i) x i < length ((pre @ [x]) @ xs)
         \<and> (\<forall>j<length ((pre @ [x]) @ xs). ((pre @ [x]) @ xs) ! j \<le> ((pre @ [x]) @ xs) ! argmax_scan xs (Suc i) x i)
         \<and> (\<forall>j<argmax_scan xs (Suc i) x i. ((pre @ [x]) @ xs) ! j < ((pre @ [x]) @ xs) ! argmax_scan xs (Suc i) x i)"
      using Cons.prems(1) at_i le lt
      by (intro Cons.IH) auto
    with True show ?thesis by simp
  next
    case False
    have le: "\<forall>j<Suc i. ((pre @ [x]) @ xs) ! j \<le> best"
    proof (intro allI impI)
      fix j assume "j < Suc i"
      then consider "j < i" | "j = i" by (auto simp: less_Suc_eq)
      then show "((pre @ [x]) @ xs) ! j \<le> best"
      proof cases
        case 1
        with Cons.prems(4) show ?thesis by simp
      next
        case 2
        with at_i False show ?thesis by simp
      qed
    qed
    have "argmax_scan xs (Suc i) best best_i < length ((pre @ [x]) @ xs)
         \<and> (\<forall>j<length ((pre @ [x]) @ xs). ((pre @ [x]) @ xs) ! j \<le> ((pre @ [x]) @ xs) ! argmax_scan xs (Suc i) best best_i)
         \<and> (\<forall>j<argmax_scan xs (Suc i) best best_i. ((pre @ [x]) @ xs) ! j < ((pre @ [x]) @ xs) ! argmax_scan xs (Suc i) best best_i)"
      using Cons.prems le
      by (intro Cons.IH) auto
    with False show ?thesis by simp
  qed
qed

lemma np_argmax_empty: "np_argmax [] = Inl ValueError"
  by (simp add: np_argmax_def)

lemma np_argmax_first_max:
  assumes "pred \<noteq> []"
  shows "\<exists>i. np_argmax pred = Inr (int i) \<and> i < length pred
            \<and> (\<forall>j<length pred. pred ! j \<le> pred ! i)
            \<and> (\<forall>j<i. pred ! j < pred ! i)"
proof -
  from assms obtain x xs where pred: "pred = x # xs" by (cases pred) auto
  have "argmax_scan xs 1 x 0 < length ([x] @ xs)
         \<and> (\<forall>j<length ([x] @ xs). ([x] @ xs) ! j \<le> ([x] @ xs) ! argmax_scan xs 1 x 0)
         \<and> (\<forall>j<argmax_scan xs 1 x 0. ([x] @ xs) ! j < ([x] @ xs) ! argmax_scan xs 1 x 0)"
    by (rule argmax_scan_spec) auto
  then show ?thesis
    by (simp add: pred np_argmax_def)
qed

lemma np_argmax_Inr:
  assumes "np_argmax pred = Inr index"
  shows "\<exists>i. index = int i \<and> i < length pred
            \<and> (\<forall>j<length pred. pred ! j \<le> pred ! i)
            \<and> (\<forall>j<i. pred ! j < pred ! i)"
proof -
  from assms have "pred \<noteq> []" by (auto simp: np_argmax_def)
  from np_argmax_first_max [OF this] assms show ?thesis by auto
qed

lemma index_to_char_single:
  assumes "0 \<le> i" "index_to_char i = Inr c"
  shows "length c = 1"
proof (cases "i < 10")
  case True
  with assms show ?thesis by (auto simp: index_to_char_digit)
next
  case False
  with assms show ?thesis
    by (auto simp: index_to_char_def py_chr_def split: if_splits)
qed

lemma predicted_chars_Inr:
  assumes "predicted_chars preds = Inr cs"
  shows "length cs = length preds
         \<and> (\<forall>k<length preds. \<exists>index. np_argmax (preds ! k) = Inr index
                                    \<and> index_to_char index = Inr (cs ! k))"
  using assms
proof (induction preds arbitrary: cs)
  case Nil
  then show ?case by simp
next
  case (Cons pred rest)
  from Cons.prems obtain index c cs' where
    a: "np_argmax pred = Inr index" and b: "index_to_char index = Inr c"
    and r: "predicted_chars rest = Inr cs'" and cs: "cs = c # cs'"
    by (auto split: sum.splits)
  from Cons.IH [OF r] have len: "length cs' = length rest"
    and ih: "\<forall>k<length rest. \<exists>index. np_argmax (rest ! k) = Inr index
                                    \<and> index_to_char index = Inr (cs' ! k)"
    by simp_all
  have "\<exists>index. np_argmax ((pred # rest) ! k) = Inr index
                \<and> index_to_char index = Inr (cs ! k)" if "k < length (pred # rest)" for k
  proof (cases k)
    case 0
    with a b cs show ?thesis by simp
  next
    case (Suc k')
    with that ih cs show ?thesis by simp
  qed
  with len cs show ?case by simp
qed

lemma predicted_chars_total:
  assumes "\<forall>pred\<in>set preds. pred \<noteq> [] \<and> length pred \<le> 36"
  shows "\<exists>cs. predicted_chars preds = Inr cs \<and> length cs = length preds
              \<and> (\<forall>c\<in>set cs. \<exists>x\<in>alphabet. c = [x])"
  using assms
proof (induction preds)
  case Nil
  then show ?case by simp
next
  case (Cons pred rest)
  then have ne: "pred \<noteq> []" and le: "length pred \<le> 36" by simp_all
  from np_argmax_first_max [OF ne] obtain i where
    i: "np_argmax pred = Inr (int i)" "i < length pred" by blast
  with le have "0 \<le> int i" "int i \<le> 35" by simp_all
  from index_to_char_in_alphabet [OF this] obtain x where
    x: "index_to_char (int i) = Inr [x]" "x \<in> alphabet" by blast
  from Cons obtain cs where
    cs: "predicted_chars rest = Inr cs" "length cs = length rest"
        "\<forall>c\<in>set cs. \<exists>x\<in>alphabet. c = [x]"
    by auto
  from i x cs show ?case by simp
qed

lemma concat_singletons:
  assumes "\<forall>c\<in>set cs. length c = 1"
  shows "length (concat cs) = length cs \<and> (\<forall>k<length cs. cs ! k = [concat cs ! k])"
  using assms
proof (induction cs)
  case Nil
  then show ?case by simp
next
  case (Cons c cs)
  then obtain x where c: "c = [x]" by (cases c) auto
  from Cons have ih: "length (concat cs) = length cs" "\<forall>k<length cs. cs ! k = [concat cs ! k]"
    by simp_all
  have "(c # cs) ! k = [concat (c # cs) ! k]" if "k < length (c # cs)" for k
    using that ih c by (cases k) simp_all
  with ih c show ?case by simp
qed

lemma preprocess_image_readable:
  assumes "cv2_imread L img_path = Some img"
  shows "preprocess_image L img_path s =
           (Inr [map (map normalize_pixel) (cv2_resize L img (IMG_WIDTH, IMG_HEIGHT))],
            emit (Imread img_path) s)"
  using assms by (simp add: preprocess_image_def)

lemma preprocess_image_unreadable:
  assumes "cv2_imread L img_path = None"
  shows "preprocess_image L img_path s =
           (Inl (SysExit 1),
            print (lit ''Error: Image not found at '' @ img_path) (emit (Imread img_path) s))"
  using assms by (simp add: preprocess_image_def)

lemma predict_captcha_readable:
  assumes "cv2_imread L img_path = Some img"
  shows "predict_captcha L model img_path vb s =
           (case model [map (map normalize_pixel) (cv2_resize L img (IMG_WIDTH, IMG_HEIGHT))] vb of
              Inl e \<Rightarrow> Inl (Uncaught e)
            | Inr predictions \<Rightarrow>
                (case predicted_chars predictions of
                   Inl e \<Rightarrow> Inl (Uncaught e)
                 | Inr cs \<Rightarrow> Inr (concat cs)),
            emit (Predict vb) (emit (Imread img_path) s))"
  by (simp add: predict_captcha_def preprocess_image_readable [OF assms] split: sum.splits)

text \<open>
  Claim C1. When the image can be read and the model answers with its output slots, each
  a non-empty sequence of at most 36 class scores (the data model's 36 classes),
  \<open>predict_captcha\<close> returns a string of exactly one character per slot, every character
  in \<open>0-9a-z\<close>.
\<close>

theorem predict_captcha_output_shape:
  assumes "cv2_imread L img_path = Some img"
    and "model [map (map normalize_pixel) (cv2_resize L img (IMG_WIDTH, IMG_HEIGHT))] vb
           = Inr predictions"
    and "\<forall>pred\<in>set predictions. pred \<noteq> [] \<and> length pred \<le> 36"
  shows "\<exists>text. fst (predict_captcha L model img_path vb s) = Inr text
               \<and> length text = length predictions
               \<and> (\<forall>c\<in>set text. c \<in> alphabet)"
proof -
  from predicted_chars_total [OF assms(3)] obtain cs where
    cs: "predicted_chars predictions = Inr cs" "length cs = length predictions"
        "\<forall>c\<in>set cs. \<exists>x\<in>alphabet. c = [x]"
    by blast
  have res: "fst (predict_captcha L model img_path vb s) = Inr (concat cs)"
    by (simp add: predict_captcha_readable [OF assms(1)] assms(2) cs(1))
  from cs(3) have "\<forall>c\<in>set cs. length c = 1" by auto
  from concat_singletons [OF this] cs(2) have len: "length (concat cs) = length predictions"
    by simp
  from cs(3) have "\<forall>c\<in>set (concat cs). c \<in> alphabet" by auto
  with res len show ?thesis by blast
qed

text \<open>
  Claim C6. In a run of \<open>predict_captcha\<close> that returns a string, the character of every
  slot \<open>k\<close> is \<open>index_to_char\<close> of an index that holds the greatest entry of the slot and
  that no entry before it equals: the first maximum.
\<close>

theorem decoder_selects_first_maximum:
  assumes "cv2_imread L img_path = Some img"
    and "model [map (map normalize_pixel) (cv2_resize L img (IMG_WIDTH, IMG_HEIGHT))] vb
           = Inr predictions"
    and "fst (predict_captcha L model img_path vb s) = Inr text"
    and "k < length predictions"
  shows "length text = length predictions
         \<and> (\<exists>i<length (predictions ! k).
               (\<forall>j<length (predictions ! k). predictions ! k ! j \<le> predictions ! k ! i)
               \<and> (\<forall>j<i. predictions ! k ! j < predictions ! k ! i)
               \<and> np_argmax (predictions ! k) = Inr (int i)
               \<and> index_to_char (int i) = Inr [text ! k])"
proof -
  from assms(3) obtain cs where
    cs: "predicted_chars predictions = Inr cs" and decoded: "text = concat cs"
    by (auto simp: predict_captcha_readable [OF assms(1)] assms(2) split: sum.splits)
  from predicted_chars_Inr [OF cs] have len: "length cs = length predictions"
    and sel: "\<forall>k<length predictions. \<exists>index. np_argmax (predictions ! k) = Inr index
                                    \<and> index_to_char index = Inr (cs ! k)"
    by simp_all
  have single: "\<forall>c\<in>set cs. length c = 1"
  proof
    fix c assume "c \<in> set cs"
    then obtain n where n: "n < length cs" "c = cs ! n" by (auto simp: in_set_conv_nth)
    with len sel obtain index where
      index: "np_argmax (predictions ! n) = Inr index" "index_to_char index = Inr c"
      by auto
    from np_argmax_Inr [OF index(1)] have "0 \<le> index" by auto
    from index_to_char_single [OF this index(2)] show "length c = 1" .
  qed
  from concat_singletons [OF single] have
    clen: "length (concat cs) = length cs" and cnth: "\<forall>k<length cs. cs ! k = [concat cs ! k]"
    by simp_all
  from sel assms(4) obtain index where
    index: "np_argmax (predictions ! k) = Inr index" "index_to_char index = Inr (cs ! k)"
    by blast
  from np_argmax_Inr [OF index(1)] obtain i where
    i: "index = int i" "i < length (predictions ! k)"
       "\<forall>j<length (predictions ! k). predictions ! k ! j \<le> predictions ! k ! i"
       "\<forall>j<i. predictions ! k ! j < predictions ! k ! i"
    by blast
  from cnth assms(4) len decoded have "cs ! k = [text ! k]" by simp
  with index i clen len decoded show ?thesis by auto
qed

text \<open>
  Claim C7. Two runs of \<open>predict_captcha\<close>, with any libraries, image paths, verbosity
  and starting states, return the same value (the same string, or the same exception)
  as soon as the model's answers in the two runs are the same.
\<close>

theorem decoding_depends_on_predictions_only:
  assumes "cv2_imread L1 path1 = Some img1"
    and "cv2_imread L2 path2 = Some img2"
    and "model1 [map (map normalize_pixel) (cv2_resize L1 img1 (IMG_WIDTH, IMG_HEIGHT))] vb1
         = model2 [map (map normalize_pixel) (cv2_resize L2 img2 (IMG_WIDTH, IMG_HEIGHT))] vb2"
  shows "fst (predict_captcha L1 model1 path1 vb1 s1)
         = fst (predict_captcha L2 model2 path2 vb2 s2)"
  by (simp add: predict_captcha_readable [OF assms(1)] predict_captcha_readable [OF assms(2)]
      assms(3))

section \<open>The decoder on the sample environment\<close>

lemma sample_predicted_chars:
  "predicted_chars sample_predictions = Inr [lit ''7'', lit ''a'', lit ''0'', lit ''z'']"
  by (simp add: sample_predictions_def np_argmax_def index_to_char_def py_str_def py_chr_def
      dec_digits_small lit_def ord_def)

lemma sample_imread: "cv2_imread sample_libs (lit ''captcha.png'') = Some sample_image"
  by (simp add: sample_libs_def)

lemma sample_run:
  "fst (predict_captcha sample_libs sample_model (lit ''captcha.png'') 0 state0) = Inr (lit ''7a0z'')"
proof -
  have "fst (predict_captcha sample_libs sample_model (lit ''captcha.png'') 0 state0)
        = Inr (concat [lit ''7'', lit ''a'', lit ''0'', lit ''z''])"
    by (simp add: predict_captcha_readable [OF sample_imread] sample_model_def
        sample_predicted_chars)
  moreover have "concat [lit ''7'', lit ''a'', lit ''0'', lit ''z''] = lit ''7a0z''"
    by (simp add: lit_def)
  ultimately show ?thesis by simp
qed

theorem predict_captcha_output_shape_witness:
  "cv2_imread sample_libs (lit ''captcha.png'') = Some sample_image
   \<and> list_all (\<lambda>pred. pred \<noteq> [] \<and> length pred \<le> 36) sample_predictions
   \<and> (\<exists>text. fst (predict_captcha sample_libs sample_model (lit ''captcha.png'') 0 state0) = Inr text
          \<and> length text = 4 \<and> list_all (\<lambda>c. c \<in> alphabet) text)"
proof -
  have h2: "sample_model [map (map normalize_pixel)
              (cv2_resize sample_libs sample_image (IMG_WIDTH, IMG_HEIGHT))] 0
            = Inr sample_predictions"
    by (simp add: sample_model_def)
  have h3: "\<forall>pred\<in>set sample_predictions. pred \<noteq> [] \<and> length pred \<le> 36"
    by (simp add: sample_predictions_def)
  have len: "length sample_predictions = 4"
    by (simp add: sample_predictions_def)
  from predict_captcha_output_shape
         [where model = sample_model and vb = 0 and s = state0, OF sample_imread h2 h3]
       h3 len sample_imread
  show ?thesis
    by (auto simp: list_all_iff)
qed

theorem decoder_selects_first_maximum_witness:
  "cv2_imread sample_libs (lit ''captcha.png'') = Some sample_image
   \<and> fst (predict_captcha sample_libs sample_model (lit ''captcha.png'') 0 state0) = Inr (lit ''7a0z'')
   \<and> (1::nat) < length sample_predictions
   \<and> sample_predictions ! 1 ! 10 = sample_predictions ! 1 ! 20
   \<and> (\<exists>i<length (sample_predictions ! 1).
         (\<forall>j<length (sample_predictions ! 1). sample_predictions ! 1 ! j \<le> sample_predictions ! 1 ! i)
         \<and> (\<forall>j<i. sample_predictions ! 1 ! j < sample_predictions ! 1 ! i)
         \<and> np_argmax (sample_predictions ! 1) = Inr (int i)
         \<and> index_to_char (int i) = Inr [lit ''7a0z'' ! 1])"
proof -
  have h2: "sample_model [map (map normalize_pixel)
              (cv2_resize sample_libs sample_image (IMG_WIDTH, IMG_HEIGHT))] 0
            = Inr sample_predictions"
    by (simp add: sample_model_def)
  have k: "(1::nat) < length sample_predictions"
    by (simp add: sample_predictions_def)
  have tie: "sample_predictions ! 1 ! 10 = sample_predictions ! 1 ! 20"
    by (simp add: sample_predictions_def)
  from decoder_selects_first_maximum
         [where model = sample_model and vb = 0 and s = state0, OF sample_imread h2 sample_run k]
       sample_imread sample_run k tie
  show ?thesis by blast
qed

lemma sample_tie_slot: "np_argmax (sample_predictions ! 1) = Inr 10"
  by (simp add: sample_predictions_def np_argmax_def)

theorem decoding_depends_on_predictions_only_witness:
  "cv2_imread sample_libs (lit ''captcha.png'') = Some sample_image
   \<and> cv2_imread (sample_libs\<lparr>cv2_imread := (\<lambda>p. Some [[(1, 2, 3)]])\<rparr>) (lit ''other.png'')
       = Some [[(1, 2, 3)]]
   \<and> fst (predict_captcha sample_libs sample_model (lit ''captcha.png'') 0 state0)
     = fst (predict_captcha (sample_libs\<lparr>cv2_imread := (\<lambda>p. Some [[(1, 2, 3)]])\<rparr>)
              (\<lambda>t v. Inr sample_predictions) (lit ''other.png'') 1
              (print (lit ''earlier output'') state0))"
proof -
  have h2: "cv2_imread (sample_libs\<lparr>cv2_imread := (\<lambda>p. Some [[(1, 2, 3)]])\<rparr>) (lit ''other.png'')
       = Some [[(1, 2, 3)]]"
    by simp
  have h3: "sample_model [map (map normalize_pixel)
              (cv2_resize sample_libs sample_image (IMG_WIDTH, IMG_HEIGHT))] 0
            = (\<lambda>t v. Inr sample_predictions) [map (map normalize_pixel)
              (cv2_resize (sample_libs\<lparr>cv2_imread := (\<lambda>p. Some [[(1, 2, 3)]])\<rparr>) [[(1, 2, 3)]]
                 (IMG_WIDTH, IMG_HEIGHT))] 1"
    by (simp add: sample_model_def)
  from decoding_depends_on_predictions_only
         [where ?model1.0 = sample_model and ?vb1.0 = 0 and ?s1.0 = state0
            and ?model2.0 = "\<lambda>t v. Inr sample_predictions" and ?vb2.0 = 1
            and ?s2.0 = "print (lit ''earlier output'') state0", OF sample_imread h2 h3]
       sample_imread h2
  show ?thesis by blast
qed

section \<open>Properties of the command line and the main block\<close>

lemma classify_arg_verbose: "classify_arg a = OptVerbose \<longleftrightarrow> a = lit ''--verbose''"
  by (simp add: classify_arg_def)

lemma classify_arg_empty: "classify_arg [] = Positional"
  by (simp add: classify_arg_def lit_def)

lemma scan_args_verbose:
  "scan_args as v ps = Some (Parsed a) \<Longrightarrow> verbose a = (v \<or> lit ''--verbose'' \<in> set as)"
proof (induction as arbitrary: v ps)
  case Nil
  then show ?case by (auto split: list.splits)
next
  case (Cons x as)
  show ?case
  proof (cases "classify_arg x")
    case OptVerbose
    with Cons.prems have "scan_args as True ps = Some (Parsed a)" by simp
    from Cons.IH [OF this] OptVerbose show ?thesis
      by (simp add: classify_arg_verbose)
  next
    case OptHelp
    with Cons.prems show ?thesis by simp
  next
    case Positional
    then have "x \<noteq> lit ''--verbose''"
      using classify_arg_verbose [of x] by auto
    moreover from Positional Cons.prems have "scan_args as v (ps @ [x]) = Some (Parsed a)" by simp
    from Cons.IH [OF this] have "verbose a = (v \<or> lit ''--verbose'' \<in> set as)" .
    ultimately show ?thesis by auto
  next
    case OtherDash
    with Cons.prems show ?thesis by simp
  qed
qed

lemma parse_args_verbose:
  "parse_args argv = Some (Parsed a) \<Longrightarrow> verbose a = (lit ''--verbose'' \<in> set (tl argv))"
  unfolding parse_args_def by (drule scan_args_verbose) simp

lemma scan_args_flags_and_positionals:
  assumes "\<forall>x\<in>set as. x = lit ''--verbose'' \<or> classify_arg x = Positional"
  shows "scan_args as v ps =
           scan_args [] (v \<or> lit ''--verbose'' \<in> set as) (ps @ filter (\<lambda>x. x \<noteq> lit ''--verbose'') as)"
  using assms
proof (induction as arbitrary: v ps)
  case Nil
  then show ?case by simp
next
  case (Cons x as)
  show ?case
  proof (cases "x = lit ''--verbose''")
    case True
    then have "classify_arg x = OptVerbose" by (simp add: classify_arg_verbose)
    with True Cons show ?thesis by (simp del: scan_args.simps(1))
  next
    case False
    with Cons.prems have "classify_arg x = Positional" by simp
    with False Cons show ?thesis by (simp del: scan_args.simps(1))
  qed
qed

lemma parse_args_missing:
  assumes "set (tl argv) \<subseteq> {lit ''--verbose''}"
  shows "parse_args argv = Some (ParserExit 2 (UsageError MissingImagePath))"
proof -
  from assms have flags: "\<forall>x\<in>set (tl argv). x = lit ''--verbose'' \<or> classify_arg x = Positional"
    by auto
  from assms have "filter (\<lambda>x. x \<noteq> lit ''--verbose'') (tl argv) = []"
    by (auto simp: filter_empty_conv)
  with scan_args_flags_and_positionals [OF flags] show ?thesis
    by (simp add: parse_args_def)
qed

lemma parse_args_empty_path:
  assumes "filter (\<lambda>x. x \<noteq> lit ''--verbose'') (tl argv) = [[]]"
  shows "parse_args argv =
           Some (Parsed \<lparr>verbose = (lit ''--verbose'' \<in> set (tl argv)), image_path = []\<rparr>)"
proof -
  have "\<forall>x\<in>set (tl argv). x = lit ''--verbose'' \<or> classify_arg x = Positional"
  proof
    fix x assume x: "x \<in> set (tl argv)"
    show "x = lit ''--verbose'' \<or> classify_arg x = Positional"
    proof (cases "x = lit ''--verbose''")
      case False
      with x have "x \<in> set (filter (\<lambda>x. x \<noteq> lit ''--verbose'') (tl argv))" by simp
      with assms have "x = []" by simp
      then show ?thesis by (simp add: classify_arg_empty)
    qed simp
  qed
  from scan_args_flags_and_positionals [OF this] assms show ?thesis
    by (simp add: parse_args_def)
qed

text \<open>The effects of the first two steps of the main block.\<close>

lemma predict_captcha_unreadable:
  assumes "cv2_imread L img_path = None"
  shows "predict_captcha L model img_path vb s =
           (Inl (SysExit 1),
            s\<lparr>console := console s @ [Out (lit ''Error: Image not found at '' @ img_path)],
              trace := trace s @ [Imread img_path]\<rparr>)"
  by (simp add: predict_captcha_def preprocess_image_unreadable [OF assms] print_def emit_def)

lemma run_script_empty_path:
  assumes "image_path a = []"
  shows "run_script L argv0 a s =
           (Inl (SysExit 1),
            s\<lparr>console := console s @ [Out (lit ''Usage: '' @ argv0 @ lit '' [--verbose] <image_path>'')],
              environ := (if verbose a then environ s
                          else (environ s)(TF_CPP_MIN_LOG_LEVEL \<mapsto> lit ''3'')),
              trace := trace s @
                (if verbose a then [ImportTensorflow (environ s TF_CPP_MIN_LOG_LEVEL)]
                 else [SetEnv TF_CPP_MIN_LOG_LEVEL (lit ''3''), ImportTensorflow (Some (lit ''3''))])\<rparr>)"
  using assms by (simp add: run_script_def print_def emit_def Let_def)

lemma predict_captcha_effects:
  "\<exists>rest. trace (snd (predict_captcha L model p vb s)) = trace s @ rest
          \<and> set rest \<subseteq> {Imread p, Predict vb}
          \<and> environ (snd (predict_captcha L model p vb s)) = environ s"
proof (cases "cv2_imread L p")
  case None
  then show ?thesis by (simp add: predict_captcha_unreadable)
next
  case (Some img)
  then show ?thesis by (simp add: predict_captcha_readable emit_def)
qed

lemma run_script_effects:
  "\<exists>rest. trace (snd (run_script L argv0 a s)) =
            trace s @
            (if verbose a then [ImportTensorflow (environ s TF_CPP_MIN_LOG_LEVEL)]
             else [SetEnv TF_CPP_MIN_LOG_LEVEL (lit ''3''), ImportTensorflow (Some (lit ''3''))])
            @ rest
          \<and> set rest \<subseteq> {LoadModel MODEL_PATH, Imread (image_path a),
                         Predict (if verbose a then 1 else 0)}
          \<and> environ (snd (run_script L argv0 a s)) =
              (if verbose a then environ s else (environ s)(TF_CPP_MIN_LOG_LEVEL \<mapsto> lit ''3''))"
proof (cases "image_path a = []")
  case True
  then show ?thesis by (simp add: run_script_empty_path)
next
  case False
  note nonempty = this
  define s2 where "s2 = emit (ImportTensorflow
      (environ (if \<not> verbose a
                then emit (SetEnv TF_CPP_MIN_LOG_LEVEL (lit ''3''))
                       (s\<lparr>environ := (environ s)(TF_CPP_MIN_LOG_LEVEL \<mapsto> lit ''3'')\<rparr>)
                else s) TF_CPP_MIN_LOG_LEVEL))
      (if \<not> verbose a
                then emit (SetEnv TF_CPP_MIN_LOG_LEVEL (lit ''3''))
                       (s\<lparr>environ := (environ s)(TF_CPP_MIN_LOG_LEVEL \<mapsto> lit ''3'')\<rparr>)
                else s)"
  have tr2: "trace s2 = trace s @
            (if verbose a then [ImportTensorflow (environ s TF_CPP_MIN_LOG_LEVEL)]
             else [SetEnv TF_CPP_MIN_LOG_LEVEL (lit ''3''), ImportTensorflow (Some (lit ''3''))])"
    and env2: "environ s2 =
              (if verbose a then environ s else (environ s)(TF_CPP_MIN_LOG_LEVEL \<mapsto> lit ''3''))"
    by (simp_all add: s2_def emit_def)
  show ?thesis
  proof (cases "load_model L MODEL_PATH")
    case (Inl e)
    with nonempty have "run_script L argv0 a s = (Inl (Uncaught e), emit (LoadModel MODEL_PATH) s2)"
      by (simp add: run_script_def s2_def Let_def)
    with tr2 env2 show ?thesis by (simp add: emit_def)
  next
    case (Inr model)
    let ?s3 = "emit (LoadModel MODEL_PATH) s2"
    let ?vb = "if verbose a then 1 else 0 :: int"
    from predict_captcha_effects [of L model "image_path a" ?vb ?s3] obtain rest where
      rest: "trace (snd (predict_captcha L model (image_path a) ?vb ?s3)) = trace ?s3 @ rest"
            "set rest \<subseteq> {Imread (image_path a), Predict ?vb}"
            "environ (snd (predict_captcha L model (image_path a) ?vb ?s3)) = environ ?s3"
      by blast
    from nonempty Inr have
      "snd (run_script L argv0 a s) =
         (case predict_captcha L model (image_path a) ?vb ?s3 of
            (Inl ab, s4) \<Rightarrow> s4 | (Inr predicted_text, s4) \<Rightarrow> print predicted_text s4)"
      by (simp add: run_script_def s2_def Let_def split: prod.splits sum.splits)
    then have "trace (snd (run_script L argv0 a s)) = trace ?s3 @ rest"
      and "environ (snd (run_script L argv0 a s)) = environ ?s3"
      using rest by (auto simp: print_def split: prod.splits sum.splits)
    with tr2 env2 rest(2) show ?thesis
      by (intro exI [of _ "LoadModel MODEL_PATH # rest"]) (auto simp: emit_def)
  qed
qed

lemma main_parsed:
  "parse_args argv = Some (Parsed a) \<Longrightarrow> main L argv s = Some (run_script L (hd argv) a s)"
  by (simp add: main_def)

text \<open>
  Claim C4. A command line with no image path is meant to end with a printed usage line
  and exit status 1 before the model is loaded: lines 55 to 57 print the usage and call
  \<open>sys.exit(1)\<close> when \<open>args.image_path\<close> is empty, as the other error paths of the
  script exit with status 1. The code misses it. \<open>image_path\<close> is declared as a required
  positional, so \<open>parse_args\<close> itself reports the missing argument and ends the process
  with status 2 before line 49 is reached; the guard on line 55 only ever sees an empty
  string. On the command line with no argument at all the run ends with status 2, the
  parser's usage error is all that is written, and nothing else has happened.
\<close>

theorem missing_image_path_exit_status:
  "main sample_libs [lit ''solve_captcha.py''] state0
     = Some (Inl (SysExit 2), state0\<lparr>console := [UsageError MissingImagePath]\<rparr>)
   \<and> map_option (\<lambda>r. exit_status (fst r)) (main sample_libs [lit ''solve_captcha.py''] state0)
     = Some 2"
  by (simp add: main_def parse_args_def state0_def)

text \<open>
  The same happens on every command line that holds nothing but \<open>--verbose\<close> flags: the
  parser's usage error, status 2, and no other effect.
\<close>

lemma missing_image_path_parser_exit:
  assumes "set (tl argv) \<subseteq> {lit ''--verbose''}"
  shows "\<exists>s'. main L argv s = Some (Inl (SysExit 2), s')
              \<and> console s' = console s @ [UsageError MissingImagePath]
              \<and> trace s' = trace s
              \<and> environ s' = environ s"
  by (simp add: main_def parse_args_missing [OF assms])

lemma missing_image_path_verbose_only:
  "\<exists>s'. main sample_libs [lit ''solve_captcha.py'', lit ''--verbose''] state0
              = Some (Inl (SysExit 2), s')
          \<and> console s' = [UsageError MissingImagePath] \<and> trace s' = []"
proof -
  have h: "set (tl [lit ''solve_captcha.py'', lit ''--verbose'']) \<subseteq> {lit ''--verbose''}"
    by simp
  from missing_image_path_parser_exit [OF h, of sample_libs state0] show ?thesis
    by (auto simp: state0_def)
qed

text \<open>
  With the help flag and no image path the parser prints the help and the process ends
  with status 0.
\<close>

lemma help_without_image_path:
  "main sample_libs [lit ''solve_captcha.py'', lit ''--help''] state0
     = Some (Inl (SysExit 0), state0\<lparr>console := [HelpMessage]\<rparr>)"
  by (simp add: main_def parse_args_def classify_arg_def lit_def ord_def state0_def)

text \<open>
  Claim C8. In every run whose command line parses, the script assigns
  \<open>TF_CPP_MIN_LOG_LEVEL = "3"\<close> exactly when \<open>--verbose\<close> is absent from the command line.
  The assignment is the first effect of the run and the import of the inference library
  the next one, so the import finds the value \<open>"3"\<close>; with \<open>--verbose\<close> the import comes
  first and finds whatever the environment held before. Nothing later sets a variable or
  imports the library again.
\<close>

theorem log_suppression_set_before_import:
  assumes "parse_args argv = Some (Parsed a)"
  shows "\<exists>r s' rest.
           main L argv s = Some (r, s')
           \<and> trace s' = trace s @
               (if lit ''--verbose'' \<in> set (tl argv)
                then [ImportTensorflow (environ s TF_CPP_MIN_LOG_LEVEL)]
                else [SetEnv TF_CPP_MIN_LOG_LEVEL (lit ''3''), ImportTensorflow (Some (lit ''3''))])
               @ rest
           \<and> (\<forall>k v. SetEnv k v \<notin> set rest)
           \<and> (\<forall>x. ImportTensorflow x \<notin> set rest)
           \<and> environ s' =
               (if lit ''--verbose'' \<in> set (tl argv) then environ s
                else (environ s)(TF_CPP_MIN_LOG_LEVEL \<mapsto> lit ''3''))"
proof -
  from run_script_effects [of L "hd argv" a s] obtain rest where
    rest: "trace (snd (run_script L (hd argv) a s)) =
            trace s @
            (if verbose a then [ImportTensorflow (environ s TF_CPP_MIN_LOG_LEVEL)]
             else [SetEnv TF_CPP_MIN_LOG_LEVEL (lit ''3''), ImportTensorflow (Some (lit ''3''))])
            @ rest"
      "set rest \<subseteq> {LoadModel MODEL_PATH, Imread (image_path a),
                         Predict (if verbose a then 1 else 0)}"
      "environ (snd (run_script L (hd argv) a s)) =
              (if verbose a then environ s else (environ s)(TF_CPP_MIN_LOG_LEVEL \<mapsto> lit ''3''))"
    by blast
  from rest(2) have no_set: "\<forall>k v. SetEnv k v \<notin> set rest"
    and no_import: "\<forall>x. ImportTensorflow x \<notin> set rest"
    by auto
  have m: "main L argv s =
        Some (fst (run_script L (hd argv) a s), snd (run_script L (hd argv) a s))"
    by (simp add: main_parsed [OF assms])
  from m rest(1,3) no_set no_import parse_args_verbose [OF assms] show ?thesis
    by (intro exI [of _ "fst (run_script L (hd argv) a s)"]
              exI [of _ "snd (run_script L (hd argv) a s)"] exI [of _ rest]) simp
qed


theorem log_suppression_set_before_import_witness:
  "parse_args [lit ''solve_captcha.py'', lit ''captcha.png'']
     = Some (Parsed \<lparr>verbose = False, image_path = lit ''captcha.png''\<rparr>)
   \<and> parse_args [lit ''solve_captcha.py'', lit ''--verbose'', lit ''captcha.png'']
     = Some (Parsed \<lparr>verbose = True, image_path = lit ''captcha.png''\<rparr>)
   \<and> (\<exists>r s' rest. main sample_libs [lit ''solve_captcha.py'', lit ''captcha.png''] state0
                       = Some (r, s')
          \<and> trace s' = [SetEnv TF_CPP_MIN_LOG_LEVEL (lit ''3''),
                         ImportTensorflow (Some (lit ''3''))] @ rest
          \<and> environ s' TF_CPP_MIN_LOG_LEVEL = Some (lit ''3''))
   \<and> (\<exists>r s' rest. main sample_libs
                       [lit ''solve_captcha.py'', lit ''--verbose'', lit ''captcha.png''] state0
                       = Some (r, s')
          \<and> trace s' = [ImportTensorflow None] @ rest
          \<and> environ s' TF_CPP_MIN_LOG_LEVEL = None)"
proof -
  have dash: "hd (lit ''captcha.png'') \<noteq> ord CHR ''-''" "lit ''captcha.png'' \<noteq> lit ''--verbose''"
    "lit ''captcha.png'' \<noteq> lit ''-h''" "lit ''captcha.png'' \<noteq> lit ''--help''"
    by (simp_all add: lit_def ord_def)
  have p1: "parse_args [lit ''solve_captcha.py'', lit ''captcha.png'']
     = Some (Parsed \<lparr>verbose = False, image_path = lit ''captcha.png''\<rparr>)"
    using dash by (simp add: parse_args_def classify_arg_def)
  have p2: "parse_args [lit ''solve_captcha.py'', lit ''--verbose'', lit ''captcha.png'']
     = Some (Parsed \<lparr>verbose = True, image_path = lit ''captcha.png''\<rparr>)"
    using dash by (simp add: parse_args_def classify_arg_def)
  have v1: "lit ''--verbose'' \<notin> set (tl [lit ''solve_captcha.py'', lit ''captcha.png''])"
    using dash by auto
  have v2: "lit ''--verbose'' \<in> set (tl [lit ''solve_captcha.py'', lit ''--verbose'', lit ''captcha.png''])"
    by simp
  from log_suppression_set_before_import [OF p1, of sample_libs state0] v1
  have r1: "\<exists>r s' rest. main sample_libs [lit ''solve_captcha.py'', lit ''captcha.png''] state0
                       = Some (r, s')
          \<and> trace s' = [SetEnv TF_CPP_MIN_LOG_LEVEL (lit ''3''),
                         ImportTensorflow (Some (lit ''3''))] @ rest
          \<and> environ s' TF_CPP_MIN_LOG_LEVEL = Some (lit ''3'')"
    by (fastforce simp: state0_def)
  from log_suppression_set_before_import [OF p2, of sample_libs state0] v2
  have r2: "\<exists>r s' rest. main sample_libs
                       [lit ''solve_captcha.py'', lit ''--verbose'', lit ''captcha.png''] state0
                       = Some (r, s')
          \<and> trace s' = [ImportTensorflow None] @ rest
          \<and> environ s' TF_CPP_MIN_LOG_LEVEL = None"
    by (fastforce simp: state0_def)
  from p1 p2 r1 r2 show ?thesis by blast
qed

text \<open>
  Claim C9. When the only argument besides \<open>--verbose\<close> flags is the empty string, the
  script prints the usage line and exits with status 1. By then it has set the logging
  variable (without \<open>--verbose\<close>) and imported the inference library, and nothing more:
  no model is loaded, no image is read, no inference runs.
\<close>

theorem empty_image_path_usage_exit:
  assumes "filter (\<lambda>x. x \<noteq> lit ''--verbose'') (tl argv) = [[]]"
  shows "\<exists>s' new.
           main L argv s = Some (Inl (SysExit 1), s')
           \<and> console s' = console s
               @ [Out (lit ''Usage: '' @ hd argv @ lit '' [--verbose] <image_path>'')]
           \<and> trace s' = trace s @ new
           \<and> new = (if lit ''--verbose'' \<in> set (tl argv)
                    then [ImportTensorflow (environ s TF_CPP_MIN_LOG_LEVEL)]
                    else [SetEnv TF_CPP_MIN_LOG_LEVEL (lit ''3''),
                          ImportTensorflow (Some (lit ''3''))])
           \<and> (\<forall>p. LoadModel p \<notin> set new) \<and> (\<forall>p. Imread p \<notin> set new)
           \<and> (\<forall>v. Predict v \<notin> set new)"
  by (simp add: main_def parse_args_empty_path [OF assms] run_script_empty_path)

theorem empty_image_path_usage_exit_witness:
  "filter (\<lambda>x. x \<noteq> lit ''--verbose'') (tl [lit ''solve_captcha.py'', lit ''--verbose'', []]) = [[]]
   \<and> (\<exists>s'. main sample_libs [lit ''solve_captcha.py'', lit ''--verbose'', []] state0
              = Some (Inl (SysExit 1), s')
          \<and> console s' = [Out (lit ''Usage: solve_captcha.py [--verbose] <image_path>'')]
          \<and> trace s' = [ImportTensorflow None])"
proof -
  have h: "filter (\<lambda>x. x \<noteq> lit ''--verbose'')
             (tl [lit ''solve_captcha.py'', lit ''--verbose'', []]) = [[]]"
    by (simp add: lit_def)
  have u: "lit ''Usage: '' @ lit ''solve_captcha.py'' @ lit '' [--verbose] <image_path>''
           = lit ''Usage: solve_captcha.py [--verbose] <image_path>''"
    by (simp add: lit_def)
  from empty_image_path_usage_exit [OF h, of sample_libs state0] h u show ?thesis
    by (auto simp: state0_def)
qed

lemma sublist_message: "sublist path (prefix_text @ path)"
  unfolding sublist_def by (rule exI [of _ prefix_text], rule exI [of _ "[]"]) simp

text \<open>
  Claim C3. For a path that \<open>cv2.imread\<close> cannot load, \<open>predict_captcha\<close> prints
  \<open>Error: Image not found at\<close> followed by the path, leaves through \<open>sys.exit(1)\<close> and
  never calls the model. For the whole program, on any command line that parses to this
  path: the exit status is 1 and no inference runs; and when the model file loads, the
  exit is that \<open>sys.exit(1)\<close> after one printed line that contains the path (the
  \<open>Error\<close> line when the path is not empty).
\<close>

theorem unreadable_image_exits_1:
  assumes "cv2_imread L path = None"
  shows "predict_captcha L model path vb s =
           (Inl (SysExit 1),
            s\<lparr>console := console s @ [Out (lit ''Error: Image not found at '' @ path)],
              trace := trace s @ [Imread path]\<rparr>)
         \<and> sublist path (lit ''Error: Image not found at '' @ path)
         \<and> (\<forall>argv a. parse_args argv = Some (Parsed a) \<and> image_path a = path \<longrightarrow>
               (\<exists>r s' new. main L argv s = Some (r, s') \<and> exit_status r = 1
                  \<and> trace s' = trace s @ new \<and> (\<forall>v. Predict v \<notin> set new)
                  \<and> (load_model L MODEL_PATH = Inr model \<longrightarrow>
                       r = Inl (SysExit 1)
                       \<and> (\<exists>line. console s' = console s @ [Out line] \<and> sublist path line)
                       \<and> (path \<noteq> [] \<longrightarrow>
                            console s' = console s
                              @ [Out (lit ''Error: Image not found at '' @ path)]))))"
proof (intro conjI allI impI)
  show "predict_captcha L model path vb s =
           (Inl (SysExit 1),
            s\<lparr>console := console s @ [Out (lit ''Error: Image not found at '' @ path)],
              trace := trace s @ [Imread path]\<rparr>)"
    by (rule predict_captcha_unreadable [OF assms])
next
  show "sublist path (lit ''Error: Image not found at '' @ path)"
    by (rule sublist_message)
next
  fix argv a
  assume pa: "parse_args argv = Some (Parsed a) \<and> image_path a = path"
  then have m: "main L argv s = Some (run_script L (hd argv) a s)" and p: "image_path a = path"
    by (simp_all add: main_parsed)
  show "\<exists>r s' new. main L argv s = Some (r, s') \<and> exit_status r = 1
                  \<and> trace s' = trace s @ new \<and> (\<forall>v. Predict v \<notin> set new)
                  \<and> (load_model L MODEL_PATH = Inr model \<longrightarrow>
                       r = Inl (SysExit 1)
                       \<and> (\<exists>line. console s' = console s @ [Out line] \<and> sublist path line)
                       \<and> (path \<noteq> [] \<longrightarrow>
                            console s' = console s
                              @ [Out (lit ''Error: Image not found at '' @ path)]))"
  proof (cases "path = []")
    case True
    with p have e: "image_path a = []" by simp
    show ?thesis
      unfolding m run_script_empty_path [OF e] using True
      by (auto simp: sublist_Nil_left)
  next
    case False
    with p have ne: "image_path a \<noteq> []" by simp
    define s2 where "s2 = emit (ImportTensorflow
               (environ (if \<not> verbose a
                  then emit (SetEnv TF_CPP_MIN_LOG_LEVEL (lit ''3''))
                         (s\<lparr>environ := (environ s)(TF_CPP_MIN_LOG_LEVEL \<mapsto> lit ''3'')\<rparr>)
                  else s) TF_CPP_MIN_LOG_LEVEL))
               (if \<not> verbose a
                  then emit (SetEnv TF_CPP_MIN_LOG_LEVEL (lit ''3''))
                         (s\<lparr>environ := (environ s)(TF_CPP_MIN_LOG_LEVEL \<mapsto> lit ''3'')\<rparr>)
                  else s)"
    have s2: "console s2 = console s"
      "trace s2 = trace s @
         (if verbose a then [ImportTensorflow (environ s TF_CPP_MIN_LOG_LEVEL)]
          else [SetEnv TF_CPP_MIN_LOG_LEVEL (lit ''3''), ImportTensorflow (Some (lit ''3''))])"
      by (simp_all add: s2_def emit_def)
    show ?thesis
    proof (cases "load_model L MODEL_PATH")
      case (Inl e)
      with ne have "run_script L (hd argv) a s =
          (Inl (Uncaught e), emit (LoadModel MODEL_PATH) s2)"
        by (simp add: run_script_def Let_def s2_def)
      with m Inl s2 show ?thesis
        by (auto simp: emit_def)
    next
      case (Inr model')
      from assms p have un: "cv2_imread L (image_path a) = None" by simp
      from ne Inr have "run_script L (hd argv) a s =
          (Inl (SysExit 1),
           (emit (LoadModel MODEL_PATH) s2)
           \<lparr>console := console s2 @ [Out (lit ''Error: Image not found at '' @ image_path a)],
             trace := trace s2 @ [LoadModel MODEL_PATH, Imread (image_path a)]\<rparr>)"
        by (simp add: run_script_def Let_def predict_captcha_unreadable [OF un] emit_def s2_def)
      with m p s2 show ?thesis
        by (auto simp: emit_def sublist_message)
    qed
  qed
qed

theorem unreadable_image_exits_1_witness:
  "cv2_imread sample_libs (lit ''/no/such/file.png'') = None
   \<and> predict_captcha sample_libs sample_model (lit ''/no/such/file.png'') 0 state0
       = (Inl (SysExit 1),
          state0\<lparr>console := [Out (lit ''Error: Image not found at /no/such/file.png'')],
                 trace := [Imread (lit ''/no/such/file.png'')]\<rparr>)
   \<and> parse_args [lit ''solve_captcha.py'', lit ''/no/such/file.png'']
       = Some (Parsed \<lparr>verbose = False, image_path = lit ''/no/such/file.png''\<rparr>)
   \<and> load_model sample_libs MODEL_PATH = Inr sample_model
   \<and> (\<exists>s' new. main sample_libs [lit ''solve_captcha.py'', lit ''/no/such/file.png''] state0
                   = Some (Inl (SysExit 1), s')
          \<and> console s' = [Out (lit ''Error: Image not found at /no/such/file.png'')]
          \<and> trace s' = new \<and> (\<forall>v. Predict v \<notin> set new))"
proof -
  have h: "cv2_imread sample_libs (lit ''/no/such/file.png'') = None"
    by (simp add: sample_libs_def lit_def ord_def)
  have dash: "hd (lit ''/no/such/file.png'') \<noteq> ord CHR ''-''"
    "lit ''/no/such/file.png'' \<noteq> lit ''--verbose''"
    "lit ''/no/such/file.png'' \<noteq> lit ''-h''" "lit ''/no/such/file.png'' \<noteq> lit ''--help''"
    "lit ''/no/such/file.png'' \<noteq> []"
    by (simp_all add: lit_def ord_def)
  have p: "parse_args [lit ''solve_captcha.py'', lit ''/no/such/file.png'']
       = Some (Parsed \<lparr>verbose = False, image_path = lit ''/no/such/file.png''\<rparr>)"
    using dash by (simp add: parse_args_def classify_arg_def)
  have l: "load_model sample_libs MODEL_PATH = Inr sample_model"
    by (simp add: sample_libs_def)
  have msg: "lit ''Error: Image not found at '' @ lit ''/no/such/file.png''
             = lit ''Error: Image not found at /no/such/file.png''"
    by (simp add: lit_def)
  note t = unreadable_image_exits_1 [where model = sample_model and vb = 0 and s = state0, OF h]
  from t have a: "predict_captcha sample_libs sample_model (lit ''/no/such/file.png'') 0 state0
       = (Inl (SysExit 1),
          state0\<lparr>console := [Out (lit ''Error: Image not found at /no/such/file.png'')],
                 trace := [Imread (lit ''/no/such/file.png'')]\<rparr>)"
    by (simp add: msg state0_def)
  from t have "\<forall>argv a. parse_args argv = Some (Parsed a) \<and> image_path a = lit ''/no/such/file.png'' \<longrightarrow>
               (\<exists>r s' new. main sample_libs argv state0 = Some (r, s') \<and> exit_status r = 1
                  \<and> trace s' = trace state0 @ new \<and> (\<forall>v. Predict v \<notin> set new)
                  \<and> (load_model sample_libs MODEL_PATH = Inr sample_model \<longrightarrow>
                       r = Inl (SysExit 1)
                       \<and> (\<exists>line. console s' = console state0 @ [Out line]
                              \<and> sublist (lit ''/no/such/file.png'') line)
                       \<and> (lit ''/no/such/file.png'' \<noteq> [] \<longrightarrow>
                            console s' = console state0
                              @ [Out (lit ''Error: Image not found at '' @ lit ''/no/such/file.png'')])))"
    by blast
  with p l dash(5) have b: "\<exists>s' new. main sample_libs [lit ''solve_captcha.py'', lit ''/no/such/file.png''] state0
                   = Some (Inl (SysExit 1), s')
          \<and> console s' = [Out (lit ''Error: Image not found at /no/such/file.png'')]
          \<and> trace s' = new \<and> (\<forall>v. Predict v \<notin> set new)"
    by (fastforce simp: msg state0_def)
  from h a p l b show ?thesis by blast
qed

section \<open>Properties of the image normalisation\<close>

lemma bit_length_1: "bit_length (Suc 0) = Suc 0"
  by (simp add: bit_length.simps)

lemma binary_exponent_unit:
  assumes "0 < x" "x \<le> 1"
  shows "binary_exponent x \<le> 0"
proof (cases "1 \<le> x")
  case True
  with assms have "x = 1" by simp
  then show ?thesis by (simp add: binary_exponent_def bit_length_1)
next
  case False
  then show ?thesis by (simp add: binary_exponent_def)
qed

lemma round_half_even_cases: "round_half_even q = \<lfloor>q\<rfloor> \<or> round_half_even q = \<lfloor>q\<rfloor> + 1"
  by (simp add: round_half_even_def Let_def)

lemma round_half_even_nonneg:
  assumes "0 \<le> q"
  shows "0 \<le> round_half_even q"
proof -
  from assms have "0 \<le> \<lfloor>q\<rfloor>" by simp
  with round_half_even_cases [of q] show ?thesis by auto
qed

lemma round_half_even_le_int:
  assumes "q \<le> of_int n"
  shows "round_half_even q \<le> n"
proof (cases "\<lfloor>q\<rfloor> < n")
  case True
  with round_half_even_cases [of q] show ?thesis by auto
next
  case False
  moreover from assms have "\<lfloor>q\<rfloor> \<le> n" by (simp add: floor_le_iff)
  ultimately have fl: "\<lfloor>q\<rfloor> = n" by simp
  then have "of_int n \<le> q" by (metis of_int_floor_le)
  with assms have "q = of_int n" by simp
  then show ?thesis by (simp add: round_half_even_def)
qed

lemma f32_round_unit:
  assumes "0 \<le> x" "x \<le> 1"
  shows "0 \<le> f32_round x \<and> f32_round x \<le> 1"
proof (cases "x = 0")
  case True
  then show ?thesis by (simp add: f32_round_def)
next
  case False
  with assms have pos: "0 < x" by simp
  define k where "k = nat (23 - binary_exponent x)"
  from binary_exponent_unit [OF pos assms(2)] have neg: "binary_exponent x - 23 < 0"
    and k: "nat (- (binary_exponent x - 23)) = k"
    by (simp_all add: k_def)
  have ulp: "(2::rat) powi (binary_exponent x - 23) = 1 / 2 ^ k"
    using neg k by (simp add: power_int_def inverse_eq_divide power_one_over)
  define m where "m = round_half_even (x * 2 ^ k)"
  have val: "f32_round x = of_int m / 2 ^ k"
    using False pos by (simp add: f32_round_def ulp m_def Let_def)
  have "0 \<le> x * 2 ^ k" using assms(1) by simp
  then have m0: "0 \<le> m" unfolding m_def by (rule round_half_even_nonneg)
  have "x * 2 ^ k \<le> of_int (2 ^ k)"
    using assms(2) by (simp add: mult_left_le_one_le)
  then have m1: "m \<le> 2 ^ k" unfolding m_def by (rule round_half_even_le_int)
  from m0 have "0 \<le> (of_int m :: rat) / 2 ^ k" by simp
  moreover from m1 have "(of_int m :: rat) \<le> 2 ^ k"
    by (metis of_int_le_iff of_int_numeral of_int_power)
  then have "(of_int m :: rat) / 2 ^ k \<le> 1" by (simp add: divide_le_eq)
  ultimately show ?thesis by (simp add: val)
qed

lemma normalize_value_range: "0 \<le> normalize_value v \<and> normalize_value v \<le> 1"
proof -
  define n where "n = unat v"
  have "n < 256" unfolding n_def using unsigned_less [of v, where 'a = nat] by simp
  then have "n \<le> 255" by simp
  then have "(of_nat n :: rat) \<le> of_nat 255" by (simp only: of_nat_le_iff)
  then have hi: "(of_nat n :: rat) / 255 \<le> 1" by simp
  have "0 \<le> (of_nat n :: rat)" by (rule of_nat_0_le_iff)
  then have lo: "0 \<le> (of_nat n :: rat) / 255" by simp
  from f32_round_unit [OF lo hi] show ?thesis
    by (simp only: normalize_value_def f32_div_def n_def)
qed

lemma normalize_value_endpoints: "normalize_value 0 = 0 \<and> normalize_value 255 = 1"
  by code_simp

lemma normalize_value_1: "normalize_value 1 = 8421505 / 2 ^ 31"
  by code_simp

lemma bit_length_bounds:
  "0 < n \<Longrightarrow> 2 ^ (bit_length n - 1) \<le> n \<and> n < 2 ^ bit_length n"
proof (induction n rule: bit_length.induct)
  case (1 n)
  show ?case
  proof (cases "n div 2 = 0")
    case True
    with "1.prems" have "n = 1" by (simp add: div_eq_0_iff) 
    then show ?thesis by (simp add: bit_length.simps [of 1] bit_length.simps [of 0] bit_length.simps [of "Suc 0"])
  next
    case False
    then have pos: "0 < n div 2" by simp
    from "1.IH" [OF _ pos] "1.prems"
    have ih: "2 ^ (bit_length (n div 2) - 1) \<le> n div 2" "n div 2 < 2 ^ bit_length (n div 2)"
      by simp_all
    have bl: "bit_length n = Suc (bit_length (n div 2))"
      using "1.prems" by (subst bit_length.simps) simp
    have blpos: "0 < bit_length (n div 2)"
      using pos by (subst bit_length.simps) simp
    then have e: "(2::nat) ^ bit_length (n div 2) = 2 * 2 ^ (bit_length (n div 2) - 1)"
      by (cases "bit_length (n div 2)") simp_all
    from ih(1) have "2 * 2 ^ (bit_length (n div 2) - 1) \<le> n" by linarith
    with e have lo: "2 ^ bit_length (n div 2) \<le> n" by simp
    from ih(2) have hi: "n < 2 * 2 ^ bit_length (n div 2)" by linarith
    from lo hi show ?thesis by (simp add: bl)
  qed
qed

lemma binary_exponent_correct:
  assumes "0 < x"
  shows "2 powi binary_exponent x \<le> x \<and> x < 2 powi (binary_exponent x + 1)"
proof (cases "1 \<le> x")
  case True
  define n where "n = nat \<lfloor>x\<rfloor>"
  from True have fl: "1 \<le> \<lfloor>x\<rfloor>" by simp
  then have n: "0 < n" "of_nat n \<le> x" "x < of_nat n + 1"
    unfolding n_def by (simp_all add: of_nat_nat) linarith+
  from bit_length_bounds [OF n(1)] have b: "2 ^ (bit_length n - 1) \<le> n" "n < 2 ^ bit_length n"
    by simp_all
  from n(1) have blpos: "0 < bit_length n" by (subst bit_length.simps) simp
  have e: "binary_exponent x = int (bit_length n - 1)"
    using True blpos by (simp add: binary_exponent_def n_def)
  have e1: "binary_exponent x + 1 = int (bit_length n)"
    using blpos by (simp add: e)
  from b(1) have "(2::rat) ^ (bit_length n - 1) \<le> of_nat n"
    by (metis of_nat_le_iff of_nat_numeral of_nat_power)
  from this n(2) have lo: "(2::rat) ^ (bit_length n - 1) \<le> x" by (rule order_trans)
  from b(2) have "n + 1 \<le> 2 ^ bit_length n" by simp
  then have "(of_nat (n + 1) :: rat) \<le> of_nat (2 ^ bit_length n)"
    by (simp only: of_nat_le_iff)
  then have "(of_nat n :: rat) + 1 \<le> 2 ^ bit_length n" by simp
  with n(3) have hi: "x < 2 ^ bit_length n" by simp
  have p1: "(2::rat) powi binary_exponent x = 2 ^ (bit_length n - 1)"
    by (simp only: e power_int_of_nat)
  have p2: "(2::rat) powi (binary_exponent x + 1) = 2 ^ bit_length n"
    by (simp only: e1 power_int_of_nat)
  from lo hi show ?thesis
    by (simp only: p1 p2 simp_thms)
next
  case False
  with assms have x: "0 < x" "x < 1" by simp_all
  define y where "y = 1 / x"
  from x have y: "1 < y" unfolding y_def by simp
  define m where "m = nat (\<lceil>y\<rceil> - 1)"
  from y have c: "2 \<le> \<lceil>y\<rceil>" by (simp add: le_ceiling_iff) 
  then have m: "0 < m" "int m = \<lceil>y\<rceil> - 1" unfolding m_def by simp_all
  from bit_length_bounds [OF m(1)] have b: "2 ^ (bit_length m - 1) \<le> m" "m < 2 ^ bit_length m"
    by simp_all
  from m(1) have blpos: "0 < bit_length m" by (subst bit_length.simps) simp
  have e: "binary_exponent x = - int (bit_length m)"
    using False by (simp add: binary_exponent_def m_def y_def)
  have my: "(of_nat m :: rat) < y"
  proof -
    have "(of_int (\<lceil>y\<rceil> - 1) :: rat) < y" by linarith
    with m(2) show ?thesis by (metis of_int_of_nat_eq)
  qed
  have ym: "y \<le> of_nat m + 1"
  proof -
    have "y \<le> of_int \<lceil>y\<rceil>" by linarith
    also have "\<dots> = of_int (int m + 1)" using m(2) by simp
    also have "\<dots> = (of_nat m :: rat) + 1" by simp
    finally show ?thesis .
  qed
  from b(1) have "(2::rat) ^ (bit_length m - 1) \<le> of_nat m"
    by (metis of_nat_le_iff of_nat_numeral of_nat_power)
  from this my have ylo: "(2::rat) ^ (bit_length m - 1) < y" by (rule le_less_trans)
  from b(2) have "m + 1 \<le> 2 ^ bit_length m" by simp
  then have "(of_nat (m + 1) :: rat) \<le> of_nat (2 ^ bit_length m)"
    by (simp only: of_nat_le_iff)
  then have "(of_nat m :: rat) + 1 \<le> 2 ^ bit_length m" by simp
  with ym have yhi: "y \<le> 2 ^ bit_length m" by simp
  have lo: "1 / 2 ^ bit_length m \<le> x"
  proof -
    from yhi have "1 / x \<le> 2 ^ bit_length m" by (simp add: y_def)
    with x(1) have "1 \<le> x * 2 ^ bit_length m" by (simp add: divide_le_eq mult.commute)
    then show ?thesis by (simp add: divide_le_eq)
  qed
  have hi: "x < 1 / 2 ^ (bit_length m - 1)"
  proof -
    from ylo have "2 ^ (bit_length m - 1) < 1 / x" by (simp add: y_def)
    with x(1) have "x * 2 ^ (bit_length m - 1) < 1" by (simp add: less_divide_eq mult.commute)
    then show ?thesis by (simp add: less_divide_eq)
  qed
  have e1: "nat (- (binary_exponent x + 1)) = bit_length m - 1"
    and neg: "binary_exponent x + 1 \<le> 0" "binary_exponent x < 0"
    using blpos by (simp_all add: e)
  show ?thesis
  proof (cases "binary_exponent x + 1 = 0")
    case True
    then have "bit_length m = 1" using e by simp
    with lo hi True e show ?thesis
      by (simp add: power_int_def inverse_eq_divide)
  next
    case False
    with neg have "\<not> 0 \<le> binary_exponent x + 1" by simp
    with lo hi e e1 neg show ?thesis
      by (simp add: power_int_def inverse_eq_divide power_one_over)
  qed
qed

lemma round_half_even_error: "\<bar>of_int (round_half_even q) - q\<bar> \<le> 1 / 2"
proof -
  define r where "r = q - of_int \<lfloor>q\<rfloor>"
  have r: "0 \<le> r" "r < 1" unfolding r_def by linarith+
  have q: "q = of_int \<lfloor>q\<rfloor> + r" by (simp add: r_def)
  consider "r < 1 / 2" | "1 / 2 < r" | "r = 1 / 2" by linarith
  then show ?thesis
  proof cases
    case 1
    then have "round_half_even q = \<lfloor>q\<rfloor>" by (simp add: round_half_even_def r_def Let_def)
    with 1 r show ?thesis by (simp add: r_def)
  next
    case 2
    then have "round_half_even q = \<lfloor>q\<rfloor> + 1"
      by (simp add: round_half_even_def r_def Let_def)
    then have "of_int (round_half_even q) - q = 1 - r" by (simp add: r_def)
    with 2 r show ?thesis by simp
  next
    case 3
    from round_half_even_cases [of q] show ?thesis
    proof
      assume "round_half_even q = \<lfloor>q\<rfloor>"
      with 3 show ?thesis by (simp add: r_def)
    next
      assume "round_half_even q = \<lfloor>q\<rfloor> + 1"
      then have "of_int (round_half_even q) - q = 1 - r" by (simp add: r_def)
      with 3 show ?thesis by simp
    qed
  qed
qed

lemma round_half_even_tie:
  assumes "q - of_int \<lfloor>q\<rfloor> = 1 / 2"
  shows "even (round_half_even q)"
  using assms by (simp add: round_half_even_def Let_def)

lemma round_half_even_ge_int:
  assumes "of_int n \<le> q"
  shows "n \<le> round_half_even q"
proof -
  from assms have "n \<le> \<lfloor>q\<rfloor>" by (simp add: le_floor_iff)
  with round_half_even_cases [of q] show ?thesis by auto
qed

lemma f32_round_nearest:
  assumes "0 < x"
  shows "\<exists>m. f32_round x = of_int m * 2 powi (binary_exponent x - 23)
             \<and> 2 ^ 23 \<le> m \<and> m \<le> 2 ^ 24
             \<and> \<bar>f32_round x - x\<bar> \<le> 2 powi (binary_exponent x - 23) / 2"
proof -
  define e where "e = binary_exponent x"
  define ulp :: rat where "ulp = 2 powi (e - 23)"
  define m where "m = round_half_even (x / ulp)"
  have ulp_pos: "0 < ulp" unfolding ulp_def by simp
  from binary_exponent_correct [OF assms] have b: "2 powi e \<le> x" "x < 2 powi (e + 1)"
    by (simp_all add: e_def)
  have split_lo: "(2::rat) powi e = 2 ^ 23 * ulp"
    unfolding ulp_def by (simp add: power_int_diff)
  have split_hi: "(2::rat) powi (e + 1) = 2 ^ 24 * ulp"
    unfolding ulp_def by (simp add: power_int_diff power_int_add)
  from b(1) ulp_pos have qlo: "of_int (2 ^ 23) \<le> x / ulp"
    by (simp add: split_lo le_divide_eq)
  from b(2) ulp_pos have qhi: "x / ulp \<le> of_int (2 ^ 24)"
    by (simp add: split_hi divide_le_eq)
  have val: "f32_round x = of_int m * ulp"
    using assms by (simp add: f32_round_def Let_def m_def ulp_def e_def)
  from qlo have m_lo: "2 ^ 23 \<le> m" unfolding m_def by (rule round_half_even_ge_int)
  from qhi have m_hi: "m \<le> 2 ^ 24" unfolding m_def by (rule round_half_even_le_int)
  have "f32_round x - x = (of_int m - x / ulp) * ulp"
    using ulp_pos by (simp add: val algebra_simps)
  then have "\<bar>f32_round x - x\<bar> = \<bar>of_int m - x / ulp\<bar> * ulp"
    using ulp_pos by (simp add: abs_mult)
  also have "\<dots> \<le> (1 / 2) * ulp"
    using round_half_even_error [of "x / ulp"] ulp_pos
    unfolding m_def by (intro mult_right_mono) simp_all
  finally have err: "\<bar>f32_round x - x\<bar> \<le> ulp / 2" by simp
  from val m_lo m_hi err show ?thesis
    unfolding ulp_def e_def by blast
qed

subsection \<open>The shape and the range of the network input\<close>

lemma nearest_resize_contract: "resize_contract nearest_resize"
  by (simp add: resize_contract_def has_size_def nearest_resize_def list_all_iff)

lemma normalize_pixel_range:
  "normalize_pixel p = (b, g, r) \<Longrightarrow> 0 \<le> b \<and> b \<le> 1 \<and> 0 \<le> g \<and> g \<le> 1 \<and> 0 \<le> r \<and> r \<le> 1"
  by (auto simp: normalize_pixel_def normalize_value_range split: prod.splits)

text \<open>
  Claim C5. For every readable image, whatever its size, \<open>preprocess_image\<close> returns a
  batch of one image, the normalised result of \<open>cv2.resize\<close> to width 250 and height 50
  of the whole image: it has 50 rows of 250 pixels, and each of the three
  single-precision channel values of every pixel lies between 0 and 1. The shape of what
  \<open>cv2.resize\<close> returns is the library's contract.
\<close>

theorem preprocess_image_shape_and_range:
  assumes "resize_contract (cv2_resize L)"
    and "cv2_imread L img_path = Some img"
  shows "\<exists>t. fst (preprocess_image L img_path s) = Inr [t]
             \<and> t = map (map normalize_pixel) (cv2_resize L img (250, 50))
             \<and> length t = 50
             \<and> (\<forall>row\<in>set t. length row = 250
                   \<and> (\<forall>(b, g, r)\<in>set row. 0 \<le> b \<and> b \<le> 1 \<and> 0 \<le> g \<and> g \<le> 1 \<and> 0 \<le> r \<and> r \<le> 1))"
proof -
  let ?t = "map (map normalize_pixel) (cv2_resize L img (250, 50))"
  from assms(1) have size: "has_size (cv2_resize L img (250, 50)) 250 50"
    by (simp add: resize_contract_def)
  have res: "fst (preprocess_image L img_path s) = Inr [?t]"
    by (simp add: preprocess_image_readable [OF assms(2)] IMG_WIDTH_def IMG_HEIGHT_def)
  from size have len: "length ?t = 50" by (simp add: has_size_def)
  have rows: "length row = 250
      \<and> (\<forall>(b, g, r)\<in>set row. 0 \<le> b \<and> b \<le> 1 \<and> 0 \<le> g \<and> g \<le> 1 \<and> 0 \<le> r \<and> r \<le> 1)"
    if "row \<in> set ?t" for row
  proof -
    from that obtain src where src: "src \<in> set (cv2_resize L img (250, 50))"
      and row: "row = map normalize_pixel src"
      by auto
    from src size have "length src = 250" by (simp add: has_size_def list_all_iff)
    with row have "length row = 250" by simp
    moreover have "\<forall>(b, g, r)\<in>set row. 0 \<le> b \<and> b \<le> 1 \<and> 0 \<le> g \<and> g \<le> 1 \<and> 0 \<le> r \<and> r \<le> 1"
    proof
      fix q assume "q \<in> set row"
      with row obtain p where q: "q = normalize_pixel p" by auto
      obtain b g r where bgr: "normalize_pixel p = (b, g, r)" by (cases "normalize_pixel p")
      from normalize_pixel_range [OF bgr] q bgr
      show "case q of (b, g, r) \<Rightarrow> 0 \<le> b \<and> b \<le> 1 \<and> 0 \<le> g \<and> g \<le> 1 \<and> 0 \<le> r \<and> r \<le> 1"
        by simp
    qed
    ultimately show ?thesis by simp
  qed
  from res len rows show ?thesis by blast
qed

lemma sample_image_size: "has_size sample_image 3 2"
  by (simp add: has_size_def sample_image_def)

theorem preprocess_image_shape_and_range_witness:
  "resize_contract (cv2_resize sample_libs)
   \<and> cv2_imread sample_libs (lit ''captcha.png'') = Some sample_image
   \<and> has_size sample_image 3 2
   \<and> (\<exists>t. fst (preprocess_image sample_libs (lit ''captcha.png'') state0) = Inr [t]
          \<and> length t = 50
          \<and> list_all (\<lambda>row. length row = 250
               \<and> list_all (\<lambda>(b, g, r). 0 \<le> b \<and> b \<le> 1 \<and> 0 \<le> g \<and> g \<le> 1 \<and> 0 \<le> r \<and> r \<le> 1) row) t)"
proof -
  have h1: "resize_contract (cv2_resize sample_libs)"
    by (simp add: sample_libs_def nearest_resize_contract)
  from preprocess_image_shape_and_range [OF h1 sample_imread, of state0]
    h1 sample_imread sample_image_size
  show ?thesis
    by (auto simp: list_all_iff)
qed

end
